theory Spec2Isabelle
  imports Main "HOL-Library.Word"
begin

unbundle bit_operations_syntax

section \<open>Bytes and strings\<close>

text \<open>
  A Go \<^verbatim>\<open>string\<close> is a sequence of bytes, and so is a HOL \<^typ>\<open>string\<close>: the
  conversion \<^verbatim>\<open>[]byte(s)\<close> maps every character to its code.
\<close>

type_synonym byte = "8 word"

definition bytes_of :: "string \<Rightarrow> byte list" where
  "bytes_of s = map of_char s"

subsection \<open>encoding/hex\<close>

definition hextable :: string where
  "hextable = ''0123456789abcdef''"

text \<open>\<^verbatim>\<open>hex.EncodeToString\<close>: two lowercase digits per byte, high nibble first.\<close>

definition hex_byte :: "byte \<Rightarrow> string" where
  "hex_byte b = [hextable ! unat (drop_bit 4 b), hextable ! unat (b AND 0x0f)]"

definition hex_EncodeToString :: "byte list \<Rightarrow> string" where
  "hex_EncodeToString bs = concat (map hex_byte bs)"

subsection \<open>math/big\<close>

text \<open>\<^verbatim>\<open>new(big.Int).SetBytes(b)\<close>: the bytes read as a big-endian unsigned integer.\<close>

definition big_SetBytes :: "byte list \<Rightarrow> nat" where
  "big_SetBytes bs = fold (\<lambda>b acc. 256 * acc + unat b) bs 0"

definition digit_char :: "nat \<Rightarrow> char" where
  "digit_char d = ''0123456789'' ! d"

text \<open>\<^verbatim>\<open>(*big.Int).String\<close> of a non-negative value: base 10, no leading zeros.\<close>

function big_String :: "nat \<Rightarrow> string" where
  "big_String n =
     (if n < 10 then [digit_char n] else big_String (n div 10) @ [digit_char (n mod 10)])"
  by pat_completeness auto
termination
  by (relation "measure id") auto

declare big_String.simps [simp del]

subsection \<open>encoding/base64, URL alphabet\<close>

definition encodeURL :: string where
  "encodeURL = ''ABCDEFGHIJKLMNOPQRSTUVWXYZabcdefghijklmnopqrstuvwxyz0123456789-_''"

definition b64 :: "nat \<Rightarrow> char" where
  "b64 n = encodeURL ! (n mod 64)"

text \<open>
  \<^verbatim>\<open>base64.URLEncoding.Encode\<close>: three bytes give four characters; a rest of one or two
  bytes gives two or three characters and \<^verbatim>\<open>=\<close> padding up to four.
\<close>

fun base64_URLEncode :: "byte list \<Rightarrow> string" where
  "base64_URLEncode (x # y # z # rest) =
     (let v = 65536 * unat x + 256 * unat y + unat z
      in [b64 (v div 262144), b64 (v div 4096), b64 (v div 64), b64 v] @ base64_URLEncode rest)"
| "base64_URLEncode [x, y] =
     (let v = 65536 * unat x + 256 * unat y
      in [b64 (v div 262144), b64 (v div 4096), b64 (v div 64), CHR ''=''])"
| "base64_URLEncode [x] =
     (let v = 65536 * unat x
      in [b64 (v div 262144), b64 (v div 4096), CHR ''='', CHR ''=''])"
| "base64_URLEncode [] = []"

section \<open>crypto/sha256 and crypto/hmac\<close>

text \<open>
  The keyed hash of the proxy is \<^verbatim>\<open>hmac.New(sha256.New, key)\<close> of the Go standard
  library: SHA-256 as in FIPS 180-4 and HMAC as in RFC 2104, on 32-bit words.
\<close>

type_synonym u32 = "32 word"
type_synonym u64 = "64 word"

definition be32 :: "byte list \<Rightarrow> u32" where
  "be32 bs = fold (\<lambda>b acc. push_bit 8 acc OR ucast b) bs 0"

definition put_be32 :: "u32 \<Rightarrow> byte list" where
  "put_be32 w = [ucast (drop_bit 24 w), ucast (drop_bit 16 w), ucast (drop_bit 8 w), ucast w]"

definition put_be64 :: "u64 \<Rightarrow> byte list" where
  "put_be64 w = [ucast (drop_bit 56 w), ucast (drop_bit 48 w), ucast (drop_bit 40 w),
     ucast (drop_bit 32 w), ucast (drop_bit 24 w), ucast (drop_bit 16 w),
     ucast (drop_bit 8 w), ucast w]"

definition K256 :: "u32 list" where
  "K256 = [
    0x428a2f98, 0x71374491, 0xb5c0fbcf, 0xe9b5dba5, 0x3956c25b, 0x59f111f1, 0x923f82a4, 0xab1c5ed5,
    0xd807aa98, 0x12835b01, 0x243185be, 0x550c7dc3, 0x72be5d74, 0x80deb1fe, 0x9bdc06a7, 0xc19bf174,
    0xe49b69c1, 0xefbe4786, 0x0fc19dc6, 0x240ca1cc, 0x2de92c6f, 0x4a7484aa, 0x5cb0a9dc, 0x76f988da,
    0x983e5152, 0xa831c66d, 0xb00327c8, 0xbf597fc7, 0xc6e00bf3, 0xd5a79147, 0x06ca6351, 0x14292967,
    0x27b70a85, 0x2e1b2138, 0x4d2c6dfc, 0x53380d13, 0x650a7354, 0x766a0abb, 0x81c2c92e, 0x92722c85,
    0xa2bfe8a1, 0xa81a664b, 0xc24b8b70, 0xc76c51a3, 0xd192e819, 0xd6990624, 0xf40e3585, 0x106aa070,
    0x19a4c116, 0x1e376c08, 0x2748774c, 0x34b0bcb5, 0x391c0cb3, 0x4ed8aa4a, 0x5b9cca4f, 0x682e6ff3,
    0x748f82ee, 0x78a5636f, 0x84c87814, 0x8cc70208, 0x90befffa, 0xa4506ceb, 0xbef9a3f7, 0xc67178f2]"

type_synonym sha_state = "u32 \<times> u32 \<times> u32 \<times> u32 \<times> u32 \<times> u32 \<times> u32 \<times> u32"

definition sha256_init :: sha_state where
  "sha256_init = (0x6a09e667, 0xbb67ae85, 0x3c6ef372, 0xa54ff53a,
                  0x510e527f, 0x9b05688c, 0x1f83d9ab, 0x5be0cd19)"

definition Ch :: "u32 \<Rightarrow> u32 \<Rightarrow> u32 \<Rightarrow> u32" where
  "Ch x y z = (x AND y) XOR (NOT x AND z)"

definition Maj :: "u32 \<Rightarrow> u32 \<Rightarrow> u32 \<Rightarrow> u32" where
  "Maj x y z = (x AND y) XOR (x AND z) XOR (y AND z)"

definition bsig0 :: "u32 \<Rightarrow> u32" where
  "bsig0 x = word_rotr 2 x XOR word_rotr 13 x XOR word_rotr 22 x"

definition bsig1 :: "u32 \<Rightarrow> u32" where
  "bsig1 x = word_rotr 6 x XOR word_rotr 11 x XOR word_rotr 25 x"

definition ssig0 :: "u32 \<Rightarrow> u32" where
  "ssig0 x = word_rotr 7 x XOR word_rotr 18 x XOR drop_bit 3 x"

definition ssig1 :: "u32 \<Rightarrow> u32" where
  "ssig1 x = word_rotr 17 x XOR word_rotr 19 x XOR drop_bit 10 x"

text \<open>Padding: a one bit, zeros up to 56 modulo 64, and the bit length in 64 bits.\<close>

definition sha256_pad :: "byte list \<Rightarrow> byte list" where
  "sha256_pad m =
     m @ [0x80] @ replicate ((119 - length m mod 64) mod 64) 0 @ put_be64 (of_nat (8 * length m))"

function sha256_blocks :: "byte list \<Rightarrow> byte list list" where
  "sha256_blocks bs = (if bs = [] then [] else take 64 bs # sha256_blocks (drop 64 bs))"
  by pat_completeness auto
termination
  by (relation "measure length") auto

declare sha256_blocks.simps [simp del]

function block_words :: "byte list \<Rightarrow> u32 list" where
  "block_words bs = (if bs = [] then [] else be32 (take 4 bs) # block_words (drop 4 bs))"
  by pat_completeness auto
termination
  by (relation "measure length") auto

declare block_words.simps [simp del]

text \<open>The message schedule: \<open>n\<close> more words after the sixteen of the block.\<close>

fun sha256_schedule :: "nat \<Rightarrow> u32 list \<Rightarrow> u32 list" where
  "sha256_schedule 0 w = w"
| "sha256_schedule (Suc n) w =
     (let t = length w
      in sha256_schedule n
           (w @ [ssig1 (w ! (t - 2)) + w ! (t - 7) + ssig0 (w ! (t - 15)) + w ! (t - 16)]))"

fun sha256_round :: "u32 \<times> u32 \<Rightarrow> sha_state \<Rightarrow> sha_state" where
  "sha256_round (k, w) (a, b, c, d, e, f, g, h) =
     (let t1 = h + bsig1 e + Ch e f g + k + w;
          t2 = bsig0 a + Maj a b c
      in (t1 + t2, a, b, c, d + t1, e, f, g))"

fun sha_state_add :: "sha_state \<Rightarrow> sha_state \<Rightarrow> sha_state" where
  "sha_state_add (a, b, c, d, e, f, g, h) (a', b', c', d', e', f', g', h') =
     (a + a', b + b', c + c', d + d', e + e', f + f', g + g', h + h')"

definition sha256_block :: "byte list \<Rightarrow> sha_state \<Rightarrow> sha_state" where
  "sha256_block blk st =
     sha_state_add st (fold sha256_round (zip K256 (sha256_schedule 48 (block_words blk))) st)"

fun sha_state_bytes :: "sha_state \<Rightarrow> byte list" where
  "sha_state_bytes (a, b, c, d, e, f, g, h) =
     put_be32 a @ put_be32 b @ put_be32 c @ put_be32 d @
     put_be32 e @ put_be32 f @ put_be32 g @ put_be32 h"

definition sha256 :: "byte list \<Rightarrow> byte list" where
  "sha256 m = sha_state_bytes (fold sha256_block (sha256_blocks (sha256_pad m)) sha256_init)"

text \<open>HMAC with the 64-byte block of SHA-256; a longer key is hashed first.\<close>

definition hmac_key :: "byte list \<Rightarrow> byte list" where
  "hmac_key key =
     (let k = (if length key > 64 then sha256 key else key)
      in k @ replicate (64 - length k) 0)"

definition hmac_sha256 :: "byte list \<Rightarrow> byte list \<Rightarrow> byte list" where
  "hmac_sha256 key msg =
     (let k = hmac_key key
      in sha256 (map (\<lambda>b. b XOR 0x5c) k @ sha256 (map (\<lambda>b. b XOR 0x36) k @ msg)))"

section \<open>xxhash.Sum64\<close>

text \<open>The 64-bit xxHash with seed 0, as \<^verbatim>\<open>github.com/cespare/xxhash/v2\<close> computes it.\<close>

definition prime1 :: u64 where "prime1 = 0x9E3779B185EBCA87"
definition prime2 :: u64 where "prime2 = 0xC2B2AE3D27D4EB4F"
definition prime3 :: u64 where "prime3 = 0x165667B19E3779F9"
definition prime4 :: u64 where "prime4 = 0x85EBCA77C2B2AE63"
definition prime5 :: u64 where "prime5 = 0x27D4EB2F165667C5"

definition le64 :: "byte list \<Rightarrow> u64" where
  "le64 bs = foldr (\<lambda>b acc. push_bit 8 acc OR ucast b) bs 0"

definition xxh_round :: "u64 \<Rightarrow> u64 \<Rightarrow> u64" where
  "xxh_round acc inp = word_rotl 31 (acc + inp * prime2) * prime1"

definition xxh_mergeRound :: "u64 \<Rightarrow> u64 \<Rightarrow> u64" where
  "xxh_mergeRound acc v = (acc XOR xxh_round 0 v) * prime1 + prime4"

function xxh_stripes :: "u64 \<times> u64 \<times> u64 \<times> u64 \<Rightarrow> byte list \<Rightarrow> (u64 \<times> u64 \<times> u64 \<times> u64) \<times> byte list" where
  "xxh_stripes (v1, v2, v3, v4) b =
     (if length b \<ge> 32
      then xxh_stripes (xxh_round v1 (le64 (take 8 b)),
                        xxh_round v2 (le64 (take 8 (drop 8 b))),
                        xxh_round v3 (le64 (take 8 (drop 16 b))),
                        xxh_round v4 (le64 (take 8 (drop 24 b)))) (drop 32 b)
      else ((v1, v2, v3, v4), b))"
  by pat_completeness auto
termination
  by (relation "measure (\<lambda>(v, b). length b)") auto

declare xxh_stripes.simps [simp del]

function xxh_tail8 :: "u64 \<Rightarrow> byte list \<Rightarrow> u64 \<times> byte list" where
  "xxh_tail8 h b =
     (if length b \<ge> 8
      then xxh_tail8 (word_rotl 27 (h XOR xxh_round 0 (le64 (take 8 b))) * prime1 + prime4) (drop 8 b)
      else (h, b))"
  by pat_completeness auto
termination
  by (relation "measure (\<lambda>(h, b). length b)") auto

declare xxh_tail8.simps [simp del]

definition xxh_tail4 :: "u64 \<Rightarrow> byte list \<Rightarrow> u64 \<times> byte list" where
  "xxh_tail4 h b =
     (if length b \<ge> 4
      then (word_rotl 23 (h XOR le64 (take 4 b) * prime1) * prime2 + prime3, drop 4 b)
      else (h, b))"

fun xxh_tail1 :: "u64 \<Rightarrow> byte list \<Rightarrow> u64" where
  "xxh_tail1 h [] = h"
| "xxh_tail1 h (x # b) = xxh_tail1 (word_rotl 11 (h XOR ucast x * prime5) * prime1) b"

definition xxh_avalanche :: "u64 \<Rightarrow> u64" where
  "xxh_avalanche h =
     (let h1 = (h XOR drop_bit 33 h) * prime2;
          h2 = (h1 XOR drop_bit 29 h1) * prime3
      in h2 XOR drop_bit 32 h2)"

definition xxhash_Sum64 :: "byte list \<Rightarrow> u64" where
  "xxhash_Sum64 b =
     (let n = length b;
          (h0, b0) =
            (if n \<ge> 32
             then (let ((v1, v2, v3, v4), r) = xxh_stripes (prime1 + prime2, prime2, 0, - prime1) b;
                       h = word_rotl 1 v1 + word_rotl 7 v2 + word_rotl 12 v3 + word_rotl 18 v4
                   in (xxh_mergeRound (xxh_mergeRound (xxh_mergeRound (xxh_mergeRound h v1) v2) v3) v4, r))
             else (prime5, b));
          (h1, b1) = xxh_tail8 (h0 + of_nat n) b0;
          (h2, b2) = xxh_tail4 h1 b1
      in xxh_avalanche (xxh_tail1 h2 b2))"

section \<open>utils: the pseudonymizer\<close>

text \<open>\<^verbatim>\<open>OneWayKeyedHash\<close>: the first 16 bytes of the MAC, in hex.\<close>

definition OneWayKeyedHash :: "byte list \<Rightarrow> string \<Rightarrow> string" where
  "OneWayKeyedHash key data = hex_EncodeToString (take 16 (hmac_sha256 key (bytes_of data)))"

text \<open>\<^verbatim>\<open>OneWayKeyedHashNumeric\<close>: the same 16 bytes as a base-10 integer.\<close>

definition OneWayKeyedHashNumeric :: "byte list \<Rightarrow> string \<Rightarrow> string" where
  "OneWayKeyedHashNumeric key data =
     big_String (big_SetBytes (take 16 (hmac_sha256 key (bytes_of data))))"

text \<open>
  \<^verbatim>\<open>CompressUserAgent\<close>: the xxHash-64 of the bytes, big-endian in 8 bytes, in URL-safe
  base64, cut to 11 characters.
\<close>

definition CompressUserAgent :: "string \<Rightarrow> string" where
  "CompressUserAgent ua = take 11 (base64_URLEncode (put_be64 (xxhash_Sum64 (bytes_of ua))))"

section \<open>models and config\<close>

record AllowRequest =
  IPAddress :: string
  Email :: string
  UserAgent :: string

record AllowResponse =
  Allow :: bool
  Status :: string
  Message :: string
  Error :: string
  MissingFields :: "string list"

text \<open>\<^verbatim>\<open>BatchAllowResponseItem\<close>; its \<^verbatim>\<open>Allow\<close> field is \<open>ItemAllow\<close> here.\<close>

record BatchAllowResponseItem =
  Key :: string
  Type :: string
  ItemAllow :: bool

text \<open>\<^verbatim>\<open>LogRequest\<close>; the three fields it shares with \<^verbatim>\<open>AllowRequest\<close> carry a prefix.\<close>

record LogRequest =
  LogIPAddress :: string
  LogEmail :: string
  LogUserAgent :: string
  HTTPMethod :: string
  Endpoint :: string
  EventType :: string
  Username :: string
  ResponseCode :: int
  TrackRequest :: bool

text \<open>
  \<^verbatim>\<open>config.Config\<close>. The service reads \<^verbatim>\<open>EmailEncryptionEnabled\<close> (in
  \<^verbatim>\<open>EncryptEmail\<close>) and its test sets it; the field is a boolean of the configuration.
\<close>

record Config =
  ServerPort :: string
  UpstreamBaseURL :: string
  WindowSeconds :: int
  LogFlushInterval :: int
  LogBatchSize :: int
  UpstreamAPIKey :: string
  EmailEncryptionKey :: string
  EmailEncryptionFormat :: string
  EmailEncryptionEnabled :: bool

section \<open>The upstream, seen from the HTTP client\<close>

datatype json_body = KeysBody "string list" | LogsBody "LogRequest list"

record http_request =
  req_method :: string
  req_url :: string
  req_headers :: "(string \<times> string) list"
  req_body :: json_body

text \<open>
  What one exchange gives back: the request could not be built, the transport failed
  (also a timeout), or a response arrived with a status code and a body that decodes
  to a list of items or does not decode.
\<close>

datatype http_reply =
    NewRequestFailed
  | DoFailed
  | Reply int "BatchAllowResponseItem list option"

type_synonym network = "http_request \<Rightarrow> http_reply"

datatype error = ErrNewRequest | ErrTransport | ErrStatus int | ErrDecode

definition upstream_headers :: "Config \<Rightarrow> (string \<times> string) list" where
  "upstream_headers cfg =
     (''Content-Type'', ''application/json'') #
     (if UpstreamAPIKey cfg \<noteq> '''' then [(''X-API-Key'', UpstreamAPIKey cfg)] else [])"

definition batch_request :: "Config \<Rightarrow> string list \<Rightarrow> http_request" where
  "batch_request cfg keys =
     \<lparr>req_method = ''POST'', req_url = UpstreamBaseURL cfg @ ''/api/allow/batch'',
      req_headers = upstream_headers cfg, req_body = KeysBody keys\<rparr>"

definition callUpstreamBatch ::
  "Config \<Rightarrow> network \<Rightarrow> string list \<Rightarrow> error + BatchAllowResponseItem list" where
  "callUpstreamBatch cfg net keys =
     (case net (batch_request cfg keys) of
        NewRequestFailed \<Rightarrow> Inl ErrNewRequest
      | DoFailed \<Rightarrow> Inl ErrTransport
      | Reply code body \<Rightarrow>
          if code \<noteq> 200 then Inl (ErrStatus code)
          else (case body of None \<Rightarrow> Inl ErrDecode | Some result \<Rightarrow> Inr result))"

section \<open>ProxyService: the decision cache engine\<close>

text \<open>
  The fields the lock guards and the three counters. \<^verbatim>\<open>pendingCache\<close> is a map that
  can be \<^verbatim>\<open>nil\<close>, hence an option. \<^verbatim>\<open>batchedKeys\<close> is a set of keys; it is kept as a
  list without duplicates, which is also the order in which a prefetch sends them
  (Go leaves the order of a map iteration open).
\<close>

record ProxyService =
  currentCache :: "string \<rightharpoonup> bool"
  pendingCache :: "(string \<rightharpoonup> bool) option"
  batchedKeys :: "string list"
  warmUp :: bool
  totalReqs :: "64 word"
  individualCalls :: "64 word"
  lastBatchSize :: "64 word"

definition NewProxyService :: ProxyService where
  "NewProxyService =
     \<lparr>currentCache = Map.empty, pendingCache = None, batchedKeys = [], warmUp = True,
      totalReqs = 0, individualCalls = 0, lastBatchSize = 0\<rparr>"

definition EncryptEmail :: "Config \<Rightarrow> string \<Rightarrow> string" where
  "EncryptEmail cfg email =
     (if email = '''' \<or> \<not> EmailEncryptionEnabled cfg \<or> EmailEncryptionKey cfg = '''' then email
      else if EmailEncryptionFormat cfg = ''numeric''
      then OneWayKeyedHashNumeric (bytes_of (EmailEncryptionKey cfg)) email
      else OneWayKeyedHash (bytes_of (EmailEncryptionKey cfg)) email)"

text \<open>The request \<^verbatim>\<open>Check\<close> works with: a copy whose non-empty email is replaced.\<close>

definition reqFor :: "Config \<Rightarrow> AllowRequest \<Rightarrow> AllowRequest" where
  "reqFor cfg req =
     (if Email req \<noteq> '''' then req\<lparr>Email := EncryptEmail cfg (Email req)\<rparr> else req)"

definition track :: "string \<Rightarrow> string list \<Rightarrow> string list" where
  "track k ks = (if k \<in> set ks then ks else ks @ [k])"

definition trackKeys :: "ProxyService \<Rightarrow> AllowRequest \<Rightarrow> ProxyService" where
  "trackKeys s req =
     (let b1 = (if IPAddress req \<noteq> '''' then track (IPAddress req) (batchedKeys s)
                else batchedKeys s);
          b2 = (if Email req \<noteq> '''' then track (Email req) b1 else b1);
          b3 = (if UserAgent req \<noteq> '''' then track (CompressUserAgent (UserAgent req)) b2
                else b2)
      in s\<lparr>batchedKeys := b3\<rparr>)"

text \<open>
  A lookup \<^verbatim>\<open>v, ok := m[k]\<close> gives the zero value \<^verbatim>\<open>false\<close> and \<^verbatim>\<open>ok = false\<close> for a
  missing key.
\<close>

definition lookup :: "(string \<rightharpoonup> bool) \<Rightarrow> string \<Rightarrow> bool \<times> bool" where
  "lookup m k = (case m k of None \<Rightarrow> (False, False) | Some v \<Rightarrow> (v, True))"

text \<open>\<^verbatim>\<open>getFromCache\<close> returns the decision and whether the cache answered.\<close>

definition getFromCache :: "ProxyService \<Rightarrow> AllowRequest \<Rightarrow> bool \<times> bool" where
  "getFromCache s req =
     (let (ipStatus, ipKnown) = lookup (currentCache s) (IPAddress req);
          (emailStatus, emailKnown) = lookup (currentCache s) (Email req)
      in if IPAddress req \<noteq> '''' \<and> ipKnown \<and> \<not> ipStatus then (False, True)
         else if Email req \<noteq> '''' \<and> emailKnown \<and> \<not> emailStatus then (False, True)
         else
           (let (uaStatus, uaKnown) =
                  (if UserAgent req \<noteq> ''''
                   then lookup (currentCache s) (CompressUserAgent (UserAgent req))
                   else (False, False))
            in if UserAgent req \<noteq> '''' \<and> uaKnown \<and> \<not> uaStatus then (False, True)
               else
                 (let ipOk = (IPAddress req = '''' \<or> (ipKnown \<and> ipStatus));
                      emailOk = (Email req = '''' \<or> (emailKnown \<and> emailStatus));
                      uaOk = (UserAgent req = '''' \<or> (uaKnown \<and> uaStatus))
                  in if ipOk \<and> emailOk \<and> uaOk
                     then
                       (if IPAddress req = '''' \<and> Email req = '''' \<and> UserAgent req = ''''
                        then (False, False)
                        else if (IPAddress req \<noteq> '''' \<and> \<not> ipKnown) \<or>
                                (Email req \<noteq> '''' \<and> \<not> emailKnown) \<or>
                                (UserAgent req \<noteq> '''' \<and> \<not> uaKnown)
                        then (False, False)
                        else (True, True))
                     else (False, False))))"

text \<open>The keys of one request, as the miss path of \<^verbatim>\<open>Check\<close> collects them.\<close>

definition requestKeys :: "AllowRequest \<Rightarrow> string list" where
  "requestKeys req =
     (if IPAddress req \<noteq> '''' then [IPAddress req] else []) @
     (if Email req \<noteq> '''' then [Email req] else []) @
     (if UserAgent req \<noteq> '''' then [CompressUserAgent (UserAgent req)] else [])"

text \<open>
  The loop over the results of a live check: each item is written into the cache,
  and one denied item denies the request.
\<close>

fun processResults ::
  "BatchAllowResponseItem list \<Rightarrow> (string \<rightharpoonup> bool) \<times> bool \<Rightarrow> (string \<rightharpoonup> bool) \<times> bool" where
  "processResults [] (cache, allowed) = (cache, allowed)"
| "processResults (item # results) (cache, allowed) =
     processResults results
       (cache(Key item \<mapsto> ItemAllow item), if \<not> ItemAllow item then False else allowed)"

definition response :: "bool \<Rightarrow> string \<Rightarrow> string \<Rightarrow> AllowResponse" where
  "response a st msg =
     \<lparr>Allow = a, Status = st, Message = msg, Error = '''', MissingFields = []\<rparr>"

text \<open>
  \<^verbatim>\<open>Check\<close> returns the response or the error, the service after the call, and the
  key lists it has sent to the upstream, in order.
\<close>

definition Check ::
  "Config \<Rightarrow> network \<Rightarrow> ProxyService \<Rightarrow> AllowRequest \<Rightarrow>
     (error + AllowResponse) \<times> ProxyService \<times> string list list" where
  "Check cfg net s0 req =
     (let s1 = s0\<lparr>totalReqs := totalReqs s0 + 1\<rparr>;
          r = reqFor cfg req;
          s2 = trackKeys s1 r
      in if warmUp s2 then (Inr (response True ''success'' ''Warmup: Allowed''), s2, [])
         else
           (let (decision, found) = getFromCache s2 r
            in if found
               then (Inr (response decision ''success''
                            (if \<not> decision then ''Cache Hit: Blocked'' else ''Cache Hit'')), s2, [])
               else
                 (let s3 = s2\<lparr>individualCalls := individualCalls s2 + 1\<rparr>;
                      keys = requestKeys r
                  in if length keys = 0
                     then (Inr (response False ''error'' ''No keys provided''), s3, [])
                     else
                       (case callUpstreamBatch cfg net keys of
                          Inl err \<Rightarrow> (Inl err, s3, [keys])
                        | Inr results \<Rightarrow>
                            (let (cache, allowed) = processResults results (currentCache s3, True)
                             in (Inr (response allowed ''success''
                                        (if \<not> allowed then ''Blocked (Live Check)''
                                         else ''Allowed (Live Check)'')),
                                 s3\<lparr>currentCache := cache\<rparr>, [keys]))))))"

subsection \<open>Prefetch and swap\<close>

text \<open>
  The part of \<^verbatim>\<open>prefetch\<close> that runs before the goroutine starts: under the lock the
  tracked keys are copied and the set is reset; a non-empty batch stores its size.
\<close>

definition prefetch_drain :: "ProxyService \<Rightarrow> string list \<times> ProxyService" where
  "prefetch_drain s =
     (let keys = batchedKeys s;
          s1 = s\<lparr>batchedKeys := []\<rparr>
      in if length keys = 0 then (keys, s1)
         else (keys, s1\<lparr>lastBatchSize := of_nat (length keys)\<rparr>))"

fun buildCache :: "BatchAllowResponseItem list \<Rightarrow> (string \<rightharpoonup> bool) \<Rightarrow> (string \<rightharpoonup> bool)" where
  "buildCache [] newCache = newCache"
| "buildCache (cx # results) newCache = buildCache results (newCache(Key cx \<mapsto> ItemAllow cx))"

text \<open>
  The goroutine of \<^verbatim>\<open>prefetch\<close>: the batch call, and on success the new pending
  cache. It runs on the service as it is when the call returns.
\<close>

definition prefetch_fetch ::
  "Config \<Rightarrow> network \<Rightarrow> string list \<Rightarrow> ProxyService \<Rightarrow> ProxyService" where
  "prefetch_fetch cfg net batchKeys s =
     (case callUpstreamBatch cfg net batchKeys of
        Inl err \<Rightarrow> s
      | Inr results \<Rightarrow> s\<lparr>pendingCache := Some (buildCache results Map.empty)\<rparr>)"

text \<open>
  \<^verbatim>\<open>prefetch\<close> with the goroutine finished before anything else happens; the second
  component is the list of batch calls made.
\<close>

definition prefetch :: "Config \<Rightarrow> network \<Rightarrow> ProxyService \<Rightarrow> ProxyService \<times> string list list" where
  "prefetch cfg net s =
     (let (keys, s1) = prefetch_drain s
      in if length keys = 0 then (s1, [])
         else (prefetch_fetch cfg net keys s1, [keys]))"

definition swapCache :: "ProxyService \<Rightarrow> ProxyService" where
  "swapCache s =
     (let s1 = s\<lparr>warmUp := False\<rparr>;
          s2 = (case pendingCache s1 of
                  Some pending \<Rightarrow> s1\<lparr>currentCache := pending, pendingCache := None\<rparr>
                | None \<Rightarrow> s1\<lparr>currentCache := Map.empty\<rparr>)
      in s2\<lparr>totalReqs := 0, individualCalls := 0, lastBatchSize := 0\<rparr>)"

subsection \<open>Runs of the engine\<close>

text \<open>
  The steps that act on one service: a \<^verbatim>\<open>Check\<close>, a prefetch (as a whole, or as
  its two halves, between which other steps can run), and a swap.
\<close>

datatype step =
    StepCheck network AllowRequest
  | StepPrefetch network
  | StepDrain
  | StepFetch network "string list"
  | StepSwap

fun exec :: "Config \<Rightarrow> step \<Rightarrow> ProxyService \<Rightarrow> ProxyService" where
  "exec cfg (StepCheck net req) s = fst (snd (Check cfg net s req))"
| "exec cfg (StepPrefetch net) s = fst (prefetch cfg net s)"
| "exec cfg StepDrain s = snd (prefetch_drain s)"
| "exec cfg (StepFetch net keys) s = prefetch_fetch cfg net keys s"
| "exec cfg StepSwap s = swapCache s"

definition run :: "Config \<Rightarrow> step list \<Rightarrow> ProxyService \<Rightarrow> ProxyService" where
  "run cfg steps s = fold (exec cfg) steps s"

section \<open>LoggerService: the log buffer and shipper\<close>

record LoggerService =
  buffer :: "LogRequest list"

definition NewLoggerService :: LoggerService where
  "NewLoggerService = \<lparr>buffer = []\<rparr>"

text \<open>What \<^verbatim>\<open>sendBatch\<close> ends with: nothing to send, one of its three error logs, or the
  log line of a flushed batch.\<close>

datatype send_result =
    NothingToSend
  | CreateRequestError
  | SendError
  | UpstreamReturnedError int
  | Flushed nat

definition logs_request :: "Config \<Rightarrow> LogRequest list \<Rightarrow> http_request" where
  "logs_request cfg batch =
     \<lparr>req_method = ''POST'', req_url = UpstreamBaseURL cfg @ ''/api/logs'',
      req_headers = upstream_headers cfg, req_body = LogsBody batch\<rparr>"

definition sendBatch :: "Config \<Rightarrow> network \<Rightarrow> LogRequest list \<Rightarrow> send_result" where
  "sendBatch cfg net batch =
     (if length batch = 0 then NothingToSend
      else (case net (logs_request cfg batch) of
              NewRequestFailed \<Rightarrow> CreateRequestError
            | DoFailed \<Rightarrow> SendError
            | Reply code body \<Rightarrow>
                if code \<ge> 300 then UpstreamReturnedError code else Flushed (length batch)))"

text \<open>
  \<^verbatim>\<open>triggerFlush\<close> returns the service and the batches it has handed to
  \<^verbatim>\<open>sendBatch\<close>, each with what became of it.
\<close>

definition triggerFlush ::
  "Config \<Rightarrow> network \<Rightarrow> LoggerService \<Rightarrow> LoggerService \<times> (LogRequest list \<times> send_result) list" where
  "triggerFlush cfg net s =
     (if length (buffer s) = 0 then (s, [])
      else (let batch = buffer s;
                s1 = s\<lparr>buffer := []\<rparr>
            in (s1, [(batch, sendBatch cfg net batch)])))"

definition QueueLog ::
  "Config \<Rightarrow> network \<Rightarrow> LoggerService \<Rightarrow> LogRequest \<Rightarrow>
     LoggerService \<times> (LogRequest list \<times> send_result) list" where
  "QueueLog cfg net s req =
     (let req1 =
            (if EmailEncryptionKey cfg \<noteq> '''' \<and> LogEmail req \<noteq> ''''
             then (if EmailEncryptionFormat cfg = ''numeric''
                   then req\<lparr>LogEmail :=
                          OneWayKeyedHashNumeric (bytes_of (EmailEncryptionKey cfg)) (LogEmail req)\<rparr>
                   else req\<lparr>LogEmail :=
                          OneWayKeyedHash (bytes_of (EmailEncryptionKey cfg)) (LogEmail req)\<rparr>)
             else req);
          s1 = s\<lparr>buffer := buffer s @ [req1]\<rparr>;
          shouldFlush = (int (length (buffer s1)) \<ge> LogBatchSize cfg)
      in if shouldFlush then triggerFlush cfg net s1 else (s1, []))"

definition Stop ::
  "Config \<Rightarrow> network \<Rightarrow> LoggerService \<Rightarrow> LoggerService \<times> (LogRequest list \<times> send_result) list" where
  "Stop cfg net s =
     (if length (buffer s) = 0 then (s, [])
      else (let batch = buffer s;
                s1 = s\<lparr>buffer := []\<rparr>
            in (s1, [(batch, sendBatch cfg net batch)])))"

section \<open>Example inputs\<close>

text \<open>The configuration of the repository's test, and a few upstreams and requests.\<close>

definition test_cfg :: Config where
  "test_cfg =
     \<lparr>ServerPort = ''9090'', UpstreamBaseURL = ''http://upstream'', WindowSeconds = 2,
      LogFlushInterval = 0, LogBatchSize = 3, UpstreamAPIKey = '''',
      EmailEncryptionKey = ''0123456789abcdef0123456789abcdef'',
      EmailEncryptionFormat = '''', EmailEncryptionEnabled = True\<rparr>"

definition item :: "string \<Rightarrow> bool \<Rightarrow> BatchAllowResponseItem" where
  "item k a = \<lparr>Key = k, Type = '''', ItemAllow = a\<rparr>"

text \<open>An upstream that allows every key it is asked about, except \<^verbatim>\<open>1.2.3.4\<close>.\<close>

definition upstream_ok :: network where
  "upstream_ok r =
     (case req_body r of
        KeysBody keys \<Rightarrow> Reply 200 (Some (map (\<lambda>k. item k (k \<noteq> ''1.2.3.4'')) keys))
      | LogsBody batch \<Rightarrow> Reply 200 None)"

text \<open>An upstream that also reports a denied key nobody asked about.\<close>

definition upstream_extra :: network where
  "upstream_extra r =
     (case req_body r of
        KeysBody keys \<Rightarrow> Reply 200 (Some (map (\<lambda>k. item k True) keys @ [item ''6.6.6.6'' False]))
      | LogsBody batch \<Rightarrow> Reply 200 None)"

definition upstream_down :: network where
  "upstream_down r = DoFailed"

definition upstream_status :: "int \<Rightarrow> network" where
  "upstream_status code r = Reply code None"

definition req_ip :: "string \<Rightarrow> AllowRequest" where
  "req_ip ip = \<lparr>IPAddress = ip, Email = '''', UserAgent = ''''\<rparr>"

definition log_entry :: "string \<Rightarrow> LogRequest" where
  "log_entry email =
     \<lparr>LogIPAddress = ''1.2.3.4'', LogEmail = email, LogUserAgent = ''ua'', HTTPMethod = ''GET'',
      Endpoint = ''/x'', EventType = ''/x'', Username = '''', ResponseCode = 200,
      TrackRequest = True\<rparr>"

text \<open>
  The engine in its second window, as in the repository's test: two addresses are
  checked during the warmup, a prefetch asks the upstream about them, and a swap
  installs the answers.
\<close>

definition window2 :: ProxyService where
  "window2 =
     run test_cfg
       [StepCheck upstream_ok (req_ip ''1.2.3.4''), StepCheck upstream_ok (req_ip ''5.6.7.8''),
        StepPrefetch upstream_ok, StepSwap]
       NewProxyService"


text \<open>The number that a string of decimal digits denotes.\<close>

definition decimal_value :: "string \<Rightarrow> nat" where
  "decimal_value s = fold (\<lambda>c acc. 10 * acc + (of_char c - 48)) s 0"

section \<open>Properties of the pseudonymizer\<close>

lemma length_put_be32: "length (put_be32 w) = 4"
  by (simp add: put_be32_def)

lemma length_sha_state_bytes: "length (sha_state_bytes st) = 32"
  by (cases st rule: sha_state_bytes.cases) (simp add: length_put_be32)

lemma length_sha256: "length (sha256 m) = 32"
  by (simp add: sha256_def length_sha_state_bytes)

lemma length_hmac_sha256: "length (hmac_sha256 key msg) = 32"
  by (simp add: hmac_sha256_def Let_def length_sha256)

lemma length_hex_EncodeToString: "length (hex_EncodeToString bs) = 2 * length bs"
  by (induction bs) (simp_all add: hex_EncodeToString_def hex_byte_def)

lemma length_OneWayKeyedHash: "length (OneWayKeyedHash key data) = 32"
  by (simp add: OneWayKeyedHash_def length_hex_EncodeToString length_hmac_sha256)

lemma hi_nibble_bound: "unat (drop_bit 4 (b :: byte)) < 16"
proof -
  have b: "unat b < 256" using unsigned_less [of b, where ?'a = nat] by simp
  have "unat (drop_bit 4 b) = drop_bit 4 (unat b)" by (rule unat_drop_bit_eq)
  also have "\<dots> = unat b div 16" by (simp add: drop_bit_eq_div)
  finally show ?thesis using b by simp
qed

lemma lo_nibble_bound: "unat ((b :: byte) AND 0x0f) < 16"
proof -
  have "unat (b AND 15) \<le> unat (15 :: byte)"
    by (rule word_and_le1 [THEN word_le_nat_alt [THEN iffD1]])
  then show ?thesis by simp
qed

lemma hextable_nth: "n < 16 \<Longrightarrow> hextable ! n \<in> set hextable"
  by (rule nth_mem) (simp add: hextable_def)

lemma set_hex_byte: "set (hex_byte b) \<subseteq> set hextable"
  by (simp add: hex_byte_def hextable_nth hi_nibble_bound lo_nibble_bound)

lemma set_hex_EncodeToString: "set (hex_EncodeToString bs) \<subseteq> set hextable"
  using set_hex_byte by (auto simp: hex_EncodeToString_def)

lemma digit_char_mem: "d < 10 \<Longrightarrow> digit_char d \<in> set ''0123456789''"
  unfolding digit_char_def by (rule nth_mem) simp

lemma set_big_String: "set (big_String n) \<subseteq> set ''0123456789''"
proof (induction n rule: big_String.induct)
  case (1 n)
  show ?case
  proof (cases "n < 10")
    case True
    then show ?thesis using digit_char_mem [of n] by (subst big_String.simps) simp
  next
    case False
    have "n mod 10 < 10" by simp
    then have "digit_char (n mod 10) \<in> set ''0123456789''" by (rule digit_char_mem)
    with False 1 show ?thesis by (subst big_String.simps) simp
  qed
qed

lemma big_String_nonempty: "big_String n \<noteq> []"
  by (subst big_String.simps) simp

lemma EncryptEmail_nonempty: "email \<noteq> '''' \<Longrightarrow> EncryptEmail cfg email \<noteq> ''''"
proof -
  assume e: "email \<noteq> ''''"
  have "OneWayKeyedHash k email \<noteq> ''''" for k
    using length_OneWayKeyedHash [of k email] by auto
  moreover have "OneWayKeyedHashNumeric k email \<noteq> ''''" for k
    by (simp add: OneWayKeyedHashNumeric_def big_String_nonempty)
  ultimately show ?thesis using e by (simp add: EncryptEmail_def)
qed

lemma set_track: "set (track k ks) = insert k (set ks)"
  by (auto simp: track_def)

lemma distinct_track: "distinct ks \<Longrightarrow> distinct (track k ks)"
  by (simp add: track_def)

lemma set_trackKeys:
  "set (batchedKeys (trackKeys s req)) = set (batchedKeys s) \<union> set (requestKeys req)"
  by (auto simp: trackKeys_def requestKeys_def set_track Let_def)

lemma trackKeys_other:
  "currentCache (trackKeys s req) = currentCache s"
  "pendingCache (trackKeys s req) = pendingCache s"
  "warmUp (trackKeys s req) = warmUp s"
  "totalReqs (trackKeys s req) = totalReqs s"
  "individualCalls (trackKeys s req) = individualCalls s"
  "lastBatchSize (trackKeys s req) = lastBatchSize s"
  by (simp_all add: trackKeys_def Let_def)

lemma reqFor_fields:
  "IPAddress (reqFor cfg req) = IPAddress req"
  "UserAgent (reqFor cfg req) = UserAgent req"
  "Email (reqFor cfg req) = EncryptEmail cfg (Email req)"
  by (simp_all add: reqFor_def EncryptEmail_def)

section \<open>Properties of the decision cache engine\<close>

lemma set_requestKeys_reqFor:
  "set (requestKeys (reqFor cfg req)) =
     (if IPAddress req \<noteq> '''' then {IPAddress req} else {}) \<union>
     (if Email req \<noteq> '''' then {EncryptEmail cfg (Email req)} else {}) \<union>
     (if UserAgent req \<noteq> '''' then {CompressUserAgent (UserAgent req)} else {})"
  using EncryptEmail_nonempty [of "Email req" cfg]
  by (auto simp: requestKeys_def reqFor_fields EncryptEmail_def)

text \<open>
  Claim C6. While \<open>warmUp\<close> is true, \<open>Check\<close> answers allow, status \<open>success\<close>, message
  \<open>Warmup: Allowed\<close>, whatever the cache holds and without a call to the upstream; the
  cache is left as it was, and the non-empty keys of the request (the IP literal, the
  pseudonymized email, the compressed user-agent) are in the tracking set afterwards,
  next to the keys that were there before.
\<close>

theorem Check_warmup:
  assumes "warmUp s"
  shows "fst (Check cfg net s req) =
           Inr \<lparr>Allow = True, Status = ''success'', Message = ''Warmup: Allowed'',
                Error = '''', MissingFields = []\<rparr>
         \<and> snd (snd (Check cfg net s req)) = []
         \<and> currentCache (fst (snd (Check cfg net s req))) = currentCache s
         \<and> set (batchedKeys (fst (snd (Check cfg net s req)))) =
             set (batchedKeys s) \<union>
             (if IPAddress req \<noteq> '''' then {IPAddress req} else {}) \<union>
             (if Email req \<noteq> '''' then {EncryptEmail cfg (Email req)} else {}) \<union>
             (if UserAgent req \<noteq> '''' then {CompressUserAgent (UserAgent req)} else {})"
proof -
  let ?s2 = "trackKeys (s\<lparr>totalReqs := totalReqs s + 1\<rparr>) (reqFor cfg req)"
  have w: "warmUp ?s2" using assms by (simp add: trackKeys_other)
  have c: "Check cfg net s req =
             (Inr (response True ''success'' ''Warmup: Allowed''), ?s2, [])"
    using w by (simp add: Check_def Let_def)
  have k: "set (batchedKeys ?s2) = set (batchedKeys s) \<union> set (requestKeys (reqFor cfg req))"
    by (simp add: set_trackKeys)
  show ?thesis
    unfolding c using k
    by (simp add: response_def trackKeys_other set_requestKeys_reqFor Un_assoc)
qed

theorem Check_warmup_witness:
  "warmUp NewProxyService
   \<and> fst (Check test_cfg upstream_down NewProxyService (req_ip ''1.2.3.4'')) =
       Inr \<lparr>Allow = True, Status = ''success'', Message = ''Warmup: Allowed'',
            Error = '''', MissingFields = []\<rparr>
   \<and> snd (snd (Check test_cfg upstream_down NewProxyService (req_ip ''1.2.3.4''))) = []
   \<and> set (batchedKeys (fst (snd (Check test_cfg upstream_down NewProxyService (req_ip ''1.2.3.4''))))) =
       {''1.2.3.4''}"
proof -
  have w: "warmUp NewProxyService" by (simp add: NewProxyService_def)
  show ?thesis
    using w Check_warmup [OF w, of test_cfg upstream_down "req_ip ''1.2.3.4''"]
    by (simp add: NewProxyService_def req_ip_def)
qed


lemma getFromCache_cong:
  assumes "currentCache s = currentCache s'"
  shows "getFromCache s req = getFromCache s' req"
  unfolding getFromCache_def assms by (rule refl)


lemma Check_warmUp: "warmUp (fst (snd (Check cfg net s req))) = warmUp s"
  by (simp add: Check_def Let_def trackKeys_other split: prod.splits sum.splits)

lemma Check_pendingCache: "pendingCache (fst (snd (Check cfg net s req))) = pendingCache s"
  by (simp add: Check_def Let_def trackKeys_other split: prod.splits sum.splits)

lemma prefetch_drain_fields:
  "fst (prefetch_drain s) = batchedKeys s"
  "batchedKeys (snd (prefetch_drain s)) = []"
  "warmUp (snd (prefetch_drain s)) = warmUp s"
  "currentCache (snd (prefetch_drain s)) = currentCache s"
  "pendingCache (snd (prefetch_drain s)) = pendingCache s"
  by (simp_all add: prefetch_drain_def Let_def)

lemma prefetch_fetch_fields:
  "warmUp (prefetch_fetch cfg net keys s) = warmUp s"
  "currentCache (prefetch_fetch cfg net keys s) = currentCache s"
  "batchedKeys (prefetch_fetch cfg net keys s) = batchedKeys s"
  by (simp_all add: prefetch_fetch_def split: sum.splits)

lemma prefetch_eq:
  "prefetch cfg net s =
     (if batchedKeys s = [] then (snd (prefetch_drain s), [])
      else (prefetch_fetch cfg net (batchedKeys s) (snd (prefetch_drain s)), [batchedKeys s]))"
  by (simp add: prefetch_def prefetch_drain_def Let_def)

lemma prefetch_fields:
  "warmUp (fst (prefetch cfg net s)) = warmUp s"
  "currentCache (fst (prefetch cfg net s)) = currentCache s"
  "batchedKeys (fst (prefetch cfg net s)) = []"
  by (simp_all add: prefetch_eq prefetch_fetch_fields prefetch_drain_fields)

lemma swapCache_fields:
  "warmUp (swapCache s) = False"
  "pendingCache (swapCache s) = None"
  "currentCache (swapCache s) = (case pendingCache s of Some pending \<Rightarrow> pending | None \<Rightarrow> Map.empty)"
  "batchedKeys (swapCache s) = batchedKeys s"
  by (simp_all add: swapCache_def Let_def split: option.splits)

lemma exec_warmUp: "warmUp (exec cfg st s) = (warmUp s \<and> st \<noteq> StepSwap)"
  by (cases st) (simp_all add: Check_warmUp prefetch_fields prefetch_drain_fields
      prefetch_fetch_fields swapCache_fields)

lemma run_warmUp: "warmUp (run cfg steps s) = (warmUp s \<and> StepSwap \<notin> set steps)"
  unfolding run_def
  by (induction steps arbitrary: s) (auto simp: exec_warmUp)

text \<open>
  Claim C7. \<open>warmUp\<close> is true in a new engine; no step other than the swap changes it,
  and the swap makes it false. So after any run of checks, prefetches and swaps from a
  new engine it is true exactly when no swap has happened yet, and once false it stays
  false.
\<close>

theorem warmUp_monotonic:
  "warmUp NewProxyService
   \<and> (st \<noteq> StepSwap \<longrightarrow> warmUp (exec cfg st s) = warmUp s)
   \<and> \<not> warmUp (exec cfg StepSwap s)
   \<and> warmUp (run cfg steps NewProxyService) = (StepSwap \<notin> set steps)
   \<and> (\<not> warmUp s \<longrightarrow> \<not> warmUp (run cfg steps s))"
  by (simp add: exec_warmUp run_warmUp swapCache_fields NewProxyService_def)

theorem warmUp_monotonic_witness:
  "StepCheck upstream_ok (req_ip ''1.2.3.4'') \<noteq> StepSwap
   \<and> warmUp (exec test_cfg (StepCheck upstream_ok (req_ip ''1.2.3.4'')) NewProxyService)
   \<and> warmUp (run test_cfg [StepCheck upstream_ok (req_ip ''1.2.3.4''), StepPrefetch upstream_ok]
        NewProxyService)
   \<and> \<not> warmUp (run test_cfg [StepCheck upstream_ok (req_ip ''1.2.3.4''), StepPrefetch upstream_ok,
        StepSwap, StepCheck upstream_ok (req_ip ''9.9.9.9'')] NewProxyService)
   \<and> \<not> warmUp (swapCache NewProxyService)
   \<and> \<not> warmUp (run test_cfg [StepCheck upstream_ok (req_ip ''9.9.9.9''), StepDrain]
        (swapCache NewProxyService))"
  using warmUp_monotonic [of "StepCheck upstream_ok (req_ip ''1.2.3.4'')" test_cfg NewProxyService
      "[StepCheck upstream_ok (req_ip ''1.2.3.4''), StepPrefetch upstream_ok]"]
    warmUp_monotonic [of StepSwap test_cfg NewProxyService
      "[StepCheck upstream_ok (req_ip ''1.2.3.4''), StepPrefetch upstream_ok,
        StepSwap, StepCheck upstream_ok (req_ip ''9.9.9.9'')]"]
    warmUp_monotonic [of StepSwap test_cfg "swapCache NewProxyService"
      "[StepCheck upstream_ok (req_ip ''9.9.9.9''), StepDrain]"]
  by simp

lemma getFromCache_rules:
  assumes "requestKeys r \<noteq> []"
  shows "getFromCache s r =
     (if \<exists>k\<in>set (requestKeys r). currentCache s k = Some False then (False, True)
      else if \<forall>k\<in>set (requestKeys r). currentCache s k = Some True then (True, True)
      else (False, False))"
  using assms
  by (cases "currentCache s (IPAddress r)"; cases "currentCache s (Email r)";
      cases "currentCache s (CompressUserAgent (UserAgent r))")
     (auto simp: getFromCache_def requestKeys_def lookup_def Let_def)

lemma getFromCache_no_keys:
  assumes "requestKeys r = []"
  shows "getFromCache s r = (False, False)"
proof -
  from assms have e: "IPAddress r = ''''" "Email r = ''''" "UserAgent r = ''''"
    by (simp_all add: requestKeys_def split: if_splits)
  show ?thesis
    by (cases "currentCache s ''''") (simp_all add: getFromCache_def lookup_def Let_def e)
qed

lemma requestKeys_nonempty:
  "requestKeys r \<noteq> [] \<longleftrightarrow> IPAddress r \<noteq> '''' \<or> Email r \<noteq> '''' \<or> UserAgent r \<noteq> ''''"
  by (simp add: requestKeys_def)

lemma processResults_eq:
  "processResults results (cache, allowed) =
     (cache ++ map_of (rev (map (\<lambda>i. (Key i, ItemAllow i)) results)),
      allowed \<and> (\<forall>i\<in>set results. ItemAllow i))"
proof (induction results arbitrary: cache allowed)
  case Nil
  then show ?case by simp
next
  case (Cons i results)
  have "processResults (i # results) (cache, allowed) =
          processResults results (cache(Key i \<mapsto> ItemAllow i), allowed \<and> ItemAllow i)"
    by simp
  also have "\<dots> = (cache(Key i \<mapsto> ItemAllow i) ++
                       map_of (rev (map (\<lambda>i. (Key i, ItemAllow i)) results)),
                     (allowed \<and> ItemAllow i) \<and> (\<forall>i\<in>set results. ItemAllow i))"
    by (rule Cons.IH)
  also have "cache(Key i \<mapsto> ItemAllow i) ++ map_of (rev (map (\<lambda>i. (Key i, ItemAllow i)) results)) =
             cache ++ map_of (rev (map (\<lambda>i. (Key i, ItemAllow i)) (i # results)))"
    by (rule ext) (simp add: map_add_def split: option.splits)
  finally show ?case by auto
qed

lemma Check_miss:
  assumes "\<not> warmUp s" and "\<not> snd (getFromCache s (reqFor cfg req))"
  shows "Check cfg net s req =
     (let keys = requestKeys (reqFor cfg req);
          s3 = (trackKeys (s\<lparr>totalReqs := totalReqs s + 1\<rparr>) (reqFor cfg req))
                 \<lparr>individualCalls := individualCalls s + 1\<rparr>
      in if keys = [] then (Inr (response False ''error'' ''No keys provided''), s3, [])
         else (case callUpstreamBatch cfg net keys of
                 Inl err \<Rightarrow> (Inl err, s3, [keys])
               | Inr results \<Rightarrow>
                   (Inr (response (\<forall>i\<in>set results. ItemAllow i) ''success''
                      (if \<forall>i\<in>set results. ItemAllow i
                       then ''Allowed (Live Check)'' else ''Blocked (Live Check)'')),
                    s3\<lparr>currentCache :=
                         currentCache s ++ map_of (rev (map (\<lambda>i. (Key i, ItemAllow i)) results))\<rparr>,
                    [keys])))"
proof -
  let ?s2 = "trackKeys (s\<lparr>totalReqs := totalReqs s + 1\<rparr>) (reqFor cfg req)"
  have w: "\<not> warmUp ?s2" using assms(1) by (simp add: trackKeys_other)
  have "getFromCache ?s2 (reqFor cfg req) = getFromCache s (reqFor cfg req)"
    by (rule getFromCache_cong) (simp add: trackKeys_other)
  with assms(2) obtain d where g: "getFromCache ?s2 (reqFor cfg req) = (d, False)"
    by (cases "getFromCache s (reqFor cfg req)") simp
  show ?thesis
    using w
    by (simp add: Check_def Let_def g trackKeys_other processResults_eq
        split: prod.splits sum.splits)
qed

lemma Check_hit:
  assumes "\<not> warmUp s" and "getFromCache s (reqFor cfg req) = (d, True)"
  shows "Check cfg net s req =
     (Inr (response d ''success'' (if d then ''Cache Hit'' else ''Cache Hit: Blocked'')),
      trackKeys (s\<lparr>totalReqs := totalReqs s + 1\<rparr>) (reqFor cfg req), [])"
proof -
  let ?s2 = "trackKeys (s\<lparr>totalReqs := totalReqs s + 1\<rparr>) (reqFor cfg req)"
  have w: "\<not> warmUp ?s2" using assms(1) by (simp add: trackKeys_other)
  have "getFromCache ?s2 (reqFor cfg req) = getFromCache s (reqFor cfg req)"
    by (rule getFromCache_cong) (simp add: trackKeys_other)
  with assms(2) have g: "getFromCache ?s2 (reqFor cfg req) = (d, True)" by simp
  show ?thesis
    using w g by (simp add: Check_def Let_def)
qed

lemma reqFor_req_ip: "reqFor cfg (req_ip ip) = req_ip ip"
  by (simp add: reqFor_def req_ip_def)

lemma requestKeys_req_ip: "ip \<noteq> '''' \<Longrightarrow> requestKeys (req_ip ip) = [ip]"
  by (simp add: requestKeys_def req_ip_def)

lemma Check_req_ip_warmup:
  "warmUp s \<Longrightarrow> ip \<noteq> '''' \<Longrightarrow>
   fst (snd (Check cfg net s (req_ip ip))) =
     s\<lparr>totalReqs := totalReqs s + 1, batchedKeys := track ip (batchedKeys s)\<rparr>"
  by (simp add: Check_def Let_def reqFor_def trackKeys_def req_ip_def)

lemma window2_fields:
  "\<not> warmUp window2"
  "currentCache window2 = [''1.2.3.4'' \<mapsto> False, ''5.6.7.8'' \<mapsto> True]"
  "pendingCache window2 = None"
  "batchedKeys window2 = []"
  by (simp_all add: window2_def run_def Check_req_ip_warmup NewProxyService_def track_def
      prefetch_eq prefetch_drain_def prefetch_fetch_def callUpstreamBatch_def batch_request_def
      upstream_ok_def item_def swapCache_def Let_def)

lemma req_ip_fields:
  "IPAddress (req_ip ip) = ip" "Email (req_ip ip) = ''''" "UserAgent (req_ip ip) = ''''"
  by (simp_all add: req_ip_def)

text \<open>
  Claim C1. After the warmup, for a request whose resolved form has a non-empty field,
  \<open>Check\<close> follows three rules over the keys of the non-empty fields (the IP literal, the
  pseudonymized email, the compressed user-agent). If one of them is in \<open>currentCache\<close>
  with verdict deny, the answer is deny with message \<open>Cache Hit: Blocked\<close>. Otherwise,
  if all of them are there with verdict allow, the answer is allow with message
  \<open>Cache Hit\<close>. Otherwise the request is a miss: the cache gives no answer, the
  upstream is asked about exactly these keys, and the answer is the live one or the
  upstream's error.
\<close>

theorem Check_cache_rules:
  assumes "\<not> warmUp s"
    and "IPAddress (reqFor cfg req) \<noteq> '''' \<or> Email (reqFor cfg req) \<noteq> '''' \<or>
         UserAgent (reqFor cfg req) \<noteq> ''''"
  shows "set (requestKeys (reqFor cfg req)) =
           (if IPAddress req \<noteq> '''' then {IPAddress req} else {}) \<union>
           (if Email req \<noteq> '''' then {EncryptEmail cfg (Email req)} else {}) \<union>
           (if UserAgent req \<noteq> '''' then {CompressUserAgent (UserAgent req)} else {})
     \<and> ((\<exists>k\<in>set (requestKeys (reqFor cfg req)). currentCache s k = Some False) \<longrightarrow>
          fst (Check cfg net s req) =
            Inr \<lparr>Allow = False, Status = ''success'', Message = ''Cache Hit: Blocked'',
                 Error = '''', MissingFields = []\<rparr>
          \<and> snd (snd (Check cfg net s req)) = [])
     \<and> (\<not> (\<exists>k\<in>set (requestKeys (reqFor cfg req)). currentCache s k = Some False) \<and>
         (\<forall>k\<in>set (requestKeys (reqFor cfg req)). currentCache s k = Some True) \<longrightarrow>
          fst (Check cfg net s req) =
            Inr \<lparr>Allow = True, Status = ''success'', Message = ''Cache Hit'',
                 Error = '''', MissingFields = []\<rparr>
          \<and> snd (snd (Check cfg net s req)) = [])
     \<and> (\<not> (\<exists>k\<in>set (requestKeys (reqFor cfg req)). currentCache s k = Some False) \<and>
         \<not> (\<forall>k\<in>set (requestKeys (reqFor cfg req)). currentCache s k = Some True) \<longrightarrow>
          getFromCache s (reqFor cfg req) = (False, False)
          \<and> snd (snd (Check cfg net s req)) = [requestKeys (reqFor cfg req)]
          \<and> fst (Check cfg net s req) =
              (case callUpstreamBatch cfg net (requestKeys (reqFor cfg req)) of
                 Inl err \<Rightarrow> Inl err
               | Inr results \<Rightarrow>
                   Inr \<lparr>Allow = (\<forall>i\<in>set results. ItemAllow i), Status = ''success'',
                        Message = (if \<forall>i\<in>set results. ItemAllow i
                                   then ''Allowed (Live Check)'' else ''Blocked (Live Check)''),
                        Error = '''', MissingFields = []\<rparr>))"
proof -
  let ?r = "reqFor cfg req"
  let ?keys = "requestKeys ?r"
  have ne: "?keys \<noteq> []" using assms(2) by (simp add: requestKeys_nonempty)
  note g = getFromCache_rules [OF ne, of s]
  have deny: "fst (Check cfg net s req) =
            Inr \<lparr>Allow = False, Status = ''success'', Message = ''Cache Hit: Blocked'',
                 Error = '''', MissingFields = []\<rparr>
          \<and> snd (snd (Check cfg net s req)) = []"
    if "\<exists>k\<in>set ?keys. currentCache s k = Some False"
  proof -
    from that g have "getFromCache s ?r = (False, True)" by simp
    from Check_hit [OF assms(1) this] show ?thesis by (simp add: response_def)
  qed
  have allow: "fst (Check cfg net s req) =
            Inr \<lparr>Allow = True, Status = ''success'', Message = ''Cache Hit'',
                 Error = '''', MissingFields = []\<rparr>
          \<and> snd (snd (Check cfg net s req)) = []"
    if "\<not> (\<exists>k\<in>set ?keys. currentCache s k = Some False)"
      and "\<forall>k\<in>set ?keys. currentCache s k = Some True"
  proof -
    from that g have "getFromCache s ?r = (True, True)" by simp
    from Check_hit [OF assms(1) this] show ?thesis by (simp add: response_def)
  qed
  have miss: "getFromCache s ?r = (False, False)
          \<and> snd (snd (Check cfg net s req)) = [?keys]
          \<and> fst (Check cfg net s req) =
              (case callUpstreamBatch cfg net ?keys of
                 Inl err \<Rightarrow> Inl err
               | Inr results \<Rightarrow>
                   Inr \<lparr>Allow = (\<forall>i\<in>set results. ItemAllow i), Status = ''success'',
                        Message = (if \<forall>i\<in>set results. ItemAllow i
                                   then ''Allowed (Live Check)'' else ''Blocked (Live Check)''),
                        Error = '''', MissingFields = []\<rparr>)"
    if "\<not> (\<exists>k\<in>set ?keys. currentCache s k = Some False)"
      and "\<not> (\<forall>k\<in>set ?keys. currentCache s k = Some True)"
  proof -
    from that g have m: "getFromCache s ?r = (False, False)" by simp
    then have "\<not> snd (getFromCache s ?r)" by simp
    from Check_miss [OF assms(1) this, of net] ne m show ?thesis
      by (simp add: Let_def response_def split: sum.splits)
  qed
  show ?thesis
    using deny allow miss set_requestKeys_reqFor [of cfg req] by blast
qed

theorem Check_cache_rules_witness:
  "\<not> warmUp window2
   \<and> currentCache window2 ''1.2.3.4'' = Some False
   \<and> fst (Check test_cfg upstream_down window2 (req_ip ''1.2.3.4'')) =
       Inr \<lparr>Allow = False, Status = ''success'', Message = ''Cache Hit: Blocked'',
            Error = '''', MissingFields = []\<rparr>
   \<and> currentCache window2 ''5.6.7.8'' = Some True
   \<and> fst (Check test_cfg upstream_down window2 (req_ip ''5.6.7.8'')) =
       Inr \<lparr>Allow = True, Status = ''success'', Message = ''Cache Hit'',
            Error = '''', MissingFields = []\<rparr>
   \<and> currentCache window2 ''9.9.9.9'' = None
   \<and> snd (snd (Check test_cfg upstream_down window2 (req_ip ''9.9.9.9''))) = [[''9.9.9.9'']]
   \<and> fst (Check test_cfg upstream_down window2 (req_ip ''9.9.9.9'')) = Inl ErrTransport"
proof -
  have w: "\<not> warmUp window2" by (simp add: window2_fields)
  have f: "IPAddress (reqFor test_cfg (req_ip ip)) \<noteq> '''' \<or>
           Email (reqFor test_cfg (req_ip ip)) \<noteq> '''' \<or>
           UserAgent (reqFor test_cfg (req_ip ip)) \<noteq> ''''" if "ip \<noteq> ''''" for ip
    using that by (simp add: reqFor_req_ip req_ip_fields)
  have d: "callUpstreamBatch test_cfg upstream_down [''9.9.9.9''] = Inl ErrTransport"
    by (simp add: callUpstreamBatch_def upstream_down_def)
  show ?thesis
    using w
      Check_cache_rules [OF w f, of "''1.2.3.4''" upstream_down]
      Check_cache_rules [OF w f, of "''5.6.7.8''" upstream_down]
      Check_cache_rules [OF w f, of "''9.9.9.9''" upstream_down]
    by (simp add: reqFor_req_ip requestKeys_req_ip window2_fields d)
qed

text \<open>
  Claim C3. After the warmup, a request whose key list is empty gets allow false, status
  \<open>error\<close>, message \<open>No keys provided\<close>, with no call to the upstream. When the
  cache does not answer and the batch call fails, \<open>Check\<close> returns that error and
  \<open>currentCache\<close> is what it was (so is \<open>pendingCache\<close>). The batch call fails on a
  transport error, on every status outside 200..299, and on a body that does not
  decode.
\<close>

theorem Check_miss_errors:
  assumes "\<not> warmUp s"
  shows "(requestKeys (reqFor cfg req) = [] \<longrightarrow>
            fst (Check cfg net s req) =
              Inr \<lparr>Allow = False, Status = ''error'', Message = ''No keys provided'',
                   Error = '''', MissingFields = []\<rparr>
            \<and> snd (snd (Check cfg net s req)) = []
            \<and> currentCache (fst (snd (Check cfg net s req))) = currentCache s)
       \<and> (\<not> snd (getFromCache s (reqFor cfg req)) \<and> requestKeys (reqFor cfg req) \<noteq> [] \<and>
          callUpstreamBatch cfg net (requestKeys (reqFor cfg req)) = Inl err \<longrightarrow>
            fst (Check cfg net s req) = Inl err
            \<and> currentCache (fst (snd (Check cfg net s req))) = currentCache s
            \<and> pendingCache (fst (snd (Check cfg net s req))) = pendingCache s)
       \<and> (net (batch_request cfg keys) = DoFailed \<longrightarrow>
            callUpstreamBatch cfg net keys = Inl ErrTransport)
       \<and> (net (batch_request cfg keys) = Reply code body \<and> (code < 200 \<or> 300 \<le> code) \<longrightarrow>
            callUpstreamBatch cfg net keys = Inl (ErrStatus code))
       \<and> (net (batch_request cfg keys) = Reply 200 None \<longrightarrow>
            callUpstreamBatch cfg net keys = Inl ErrDecode)"
proof -
  let ?r = "reqFor cfg req"
  have empty: "fst (Check cfg net s req) =
              Inr \<lparr>Allow = False, Status = ''error'', Message = ''No keys provided'',
                   Error = '''', MissingFields = []\<rparr>
            \<and> snd (snd (Check cfg net s req)) = []
            \<and> currentCache (fst (snd (Check cfg net s req))) = currentCache s"
    if e: "requestKeys ?r = []"
  proof -
    have "\<not> snd (getFromCache s ?r)" by (simp add: getFromCache_no_keys [OF e])
    from Check_miss [OF assms this, of net] e show ?thesis
      by (simp add: Let_def response_def trackKeys_other)
  qed
  have fails: "fst (Check cfg net s req) = Inl err
            \<and> currentCache (fst (snd (Check cfg net s req))) = currentCache s
            \<and> pendingCache (fst (snd (Check cfg net s req))) = pendingCache s"
    if "\<not> snd (getFromCache s ?r)" and "requestKeys ?r \<noteq> []"
      and "callUpstreamBatch cfg net (requestKeys ?r) = Inl err"
    using Check_miss [OF assms that(1), of net] that(2,3)
    by (simp add: Let_def trackKeys_other)
  have up: "(net (batch_request cfg keys) = DoFailed \<longrightarrow>
            callUpstreamBatch cfg net keys = Inl ErrTransport)
       \<and> (net (batch_request cfg keys) = Reply code body \<and> (code < 200 \<or> 300 \<le> code) \<longrightarrow>
            callUpstreamBatch cfg net keys = Inl (ErrStatus code))
       \<and> (net (batch_request cfg keys) = Reply 200 None \<longrightarrow>
            callUpstreamBatch cfg net keys = Inl ErrDecode)"
    by (auto simp: callUpstreamBatch_def)
  show ?thesis using empty fails up by blast
qed

theorem Check_miss_errors_witness:
  "\<not> warmUp window2
   \<and> requestKeys (reqFor test_cfg (req_ip '''')) = []
   \<and> fst (Check test_cfg upstream_ok window2 (req_ip '''')) =
       Inr \<lparr>Allow = False, Status = ''error'', Message = ''No keys provided'',
            Error = '''', MissingFields = []\<rparr>
   \<and> snd (snd (Check test_cfg upstream_ok window2 (req_ip ''''))) = []
   \<and> upstream_status 503 (batch_request test_cfg [''9.9.9.9'']) = Reply 503 None
   \<and> callUpstreamBatch test_cfg (upstream_status 503) [''9.9.9.9''] = Inl (ErrStatus 503)
   \<and> fst (Check test_cfg (upstream_status 503) window2 (req_ip ''9.9.9.9'')) = Inl (ErrStatus 503)
   \<and> currentCache (fst (snd (Check test_cfg (upstream_status 503) window2 (req_ip ''9.9.9.9'')))) =
       currentCache window2
   \<and> callUpstreamBatch test_cfg upstream_down [''9.9.9.9''] = Inl ErrTransport
   \<and> callUpstreamBatch test_cfg (upstream_status 200) [''9.9.9.9''] = Inl ErrDecode"
proof -
  have w: "\<not> warmUp window2" by (simp add: window2_fields)
  have m: "\<not> snd (getFromCache window2 (req_ip ''9.9.9.9''))"
    by (simp add: getFromCache_rules requestKeys_req_ip window2_fields)
  show ?thesis
    using w m
      Check_miss_errors [OF w, of test_cfg "req_ip ''''" upstream_ok]
      Check_miss_errors [OF w, of test_cfg "req_ip ''9.9.9.9''" "upstream_status 503"
        "ErrStatus 503" "[''9.9.9.9'']" 503 None]
      Check_miss_errors [OF w, of test_cfg "req_ip ''9.9.9.9''" upstream_down
        ErrTransport "[''9.9.9.9'']"]
      Check_miss_errors [OF w, of test_cfg "req_ip ''9.9.9.9''" "upstream_status 200"
        ErrDecode "[''9.9.9.9'']"]
    by (simp add: reqFor_req_ip requestKeys_req_ip upstream_status_def upstream_down_def
        requestKeys_def req_ip_fields)
qed

lemma dom_results:
  "dom (map_of (rev (map (\<lambda>i. (Key i, ItemAllow i)) results))) = Key ` set results"
  by (simp add: dom_map_of_conv_image_fst image_image)

lemma results_consistent:
  assumes con: "\<forall>i\<in>set results. \<forall>j\<in>set results. Key i = Key j \<longrightarrow> ItemAllow i = ItemAllow j"
    and i: "i \<in> set results"
  shows "map_of (rev (map (\<lambda>i. (Key i, ItemAllow i)) results)) (Key i) = Some (ItemAllow i)"
proof -
  let ?m = "map_of (rev (map (\<lambda>i. (Key i, ItemAllow i)) results))"
  have "Key i \<in> Key ` set results" using i by (rule imageI)
  then have "Key i \<in> dom ?m" unfolding dom_results .
  then have "\<exists>v. ?m (Key i) = Some v" by (rule domD)
  then obtain v where v: "?m (Key i) = Some v" ..
  then have "(Key i, v) \<in> set (rev (map (\<lambda>i. (Key i, ItemAllow i)) results))"
    by (rule map_of_SomeD)
  then have "(Key i, v) \<in> (\<lambda>i. (Key i, ItemAllow i)) ` set results"
    unfolding set_rev set_map .
  then obtain j where eq: "(Key i, v) = (Key j, ItemAllow j)" and j: "j \<in> set results"
    by (rule imageE)
  from eq have k: "Key i = Key j" and vj: "v = ItemAllow j"
    by (simp_all only: prod.inject)
  from con i j k have "ItemAllow i = ItemAllow j" by blast
  with v vj show ?thesis by (simp only:)
qed

text \<open>
  Claim C2, amended. After the warmup, when the cache does not answer, the key list is
  not empty and the batch call succeeds: the upstream is asked once, about the keys of
  the request; every returned pair is written into \<open>currentCache\<close>, a later pair for a
  key replacing an earlier one and any entry that was there, and the other keys keep
  their entries; the verdict is the conjunction of all returned verdicts, with message
  \<open>Allowed (Live Check)\<close> or \<open>Blocked (Live Check)\<close>. If the upstream returned an
  entry for every requested key, the same \<open>Check\<close> again, with no swap in between, is
  a cache hit and makes no upstream call. Its verdict is that of the live check when the
  returned keys are exactly the requested ones and no key came back with two different
  verdicts.
\<close>

theorem Check_live_check:
  assumes "\<not> warmUp s"
    and "\<not> snd (getFromCache s (reqFor cfg req))"
    and "requestKeys (reqFor cfg req) \<noteq> []"
    and "callUpstreamBatch cfg net (requestKeys (reqFor cfg req)) = Inr results"
  shows "snd (snd (Check cfg net s req)) = [requestKeys (reqFor cfg req)]
     \<and> currentCache (fst (snd (Check cfg net s req))) =
         currentCache s ++ map_of (rev (map (\<lambda>i. (Key i, ItemAllow i)) results))
     \<and> (\<forall>i\<in>set results. currentCache (fst (snd (Check cfg net s req))) (Key i) \<noteq> None)
     \<and> (\<forall>k. k \<notin> Key ` set results \<longrightarrow>
           currentCache (fst (snd (Check cfg net s req))) k = currentCache s k)
     \<and> fst (Check cfg net s req) =
         Inr \<lparr>Allow = (\<forall>i\<in>set results. ItemAllow i), Status = ''success'',
              Message = (if \<forall>i\<in>set results. ItemAllow i
                         then ''Allowed (Live Check)'' else ''Blocked (Live Check)''),
              Error = '''', MissingFields = []\<rparr>
     \<and> (set (requestKeys (reqFor cfg req)) \<subseteq> Key ` set results \<longrightarrow>
           snd (snd (Check cfg net' (fst (snd (Check cfg net s req))) req)) = []
           \<and> (\<exists>d. fst (Check cfg net' (fst (snd (Check cfg net s req))) req) =
                 Inr \<lparr>Allow = d, Status = ''success'',
                      Message = (if d then ''Cache Hit'' else ''Cache Hit: Blocked''),
                      Error = '''', MissingFields = []\<rparr>))
     \<and> (Key ` set results = set (requestKeys (reqFor cfg req)) \<and>
         (\<forall>i\<in>set results. \<forall>j\<in>set results. Key i = Key j \<longrightarrow> ItemAllow i = ItemAllow j) \<longrightarrow>
           fst (Check cfg net' (fst (snd (Check cfg net s req))) req) =
             Inr \<lparr>Allow = (\<forall>i\<in>set results. ItemAllow i), Status = ''success'',
                  Message = (if \<forall>i\<in>set results. ItemAllow i
                             then ''Cache Hit'' else ''Cache Hit: Blocked''),
                  Error = '''', MissingFields = []\<rparr>)"
proof -
  let ?r = "reqFor cfg req"
  let ?keys = "requestKeys ?r"
  let ?m = "map_of (rev (map (\<lambda>i. (Key i, ItemAllow i)) results))"
  let ?s' = "fst (snd (Check cfg net s req))"
  let ?v = "\<forall>i\<in>set results. ItemAllow i"
  note c = Check_miss [OF assms(1,2), of net]
  have calls: "snd (snd (Check cfg net s req)) = [?keys]"
    using c assms(3,4) by (simp add: Let_def)
  have cache: "currentCache ?s' = currentCache s ++ ?m"
    using c assms(3,4) by (simp add: Let_def)
  have resp: "fst (Check cfg net s req) =
         Inr \<lparr>Allow = ?v, Status = ''success'',
              Message = (if ?v then ''Allowed (Live Check)'' else ''Blocked (Live Check)''),
              Error = '''', MissingFields = []\<rparr>"
    using c assms(3,4) by (simp add: Let_def response_def)
  have known: "\<forall>i\<in>set results. currentCache ?s' (Key i) \<noteq> None"
  proof
    fix i assume "i \<in> set results"
    then have "Key i \<in> dom ?m" by (simp add: dom_results)
    then show "currentCache ?s' (Key i) \<noteq> None" by (auto simp: cache map_add_def)
  qed
  have other: "\<forall>k. k \<notin> Key ` set results \<longrightarrow> currentCache ?s' k = currentCache s k"
  proof (intro allI impI)
    fix k assume "k \<notin> Key ` set results"
    then have "k \<notin> dom ?m" by (simp add: dom_results)
    then show "currentCache ?s' k = currentCache s k" by (simp add: cache map_add_dom_app_simps)
  qed
  have w': "\<not> warmUp ?s'" using assms(1) by (simp add: Check_warmUp)
  note g = getFromCache_rules [OF assms(3), of ?s']
  have hit: "snd (snd (Check cfg net' ?s' req)) = []
           \<and> (\<exists>d. fst (Check cfg net' ?s' req) =
                 Inr \<lparr>Allow = d, Status = ''success'',
                      Message = (if d then ''Cache Hit'' else ''Cache Hit: Blocked''),
                      Error = '''', MissingFields = []\<rparr>)"
    if sub: "set ?keys \<subseteq> Key ` set results"
  proof -
    have all: "\<forall>k\<in>set ?keys. currentCache ?s' k \<noteq> None"
      using sub known by auto
    have "\<exists>d. getFromCache ?s' ?r = (d, True)"
    proof (cases "\<exists>k\<in>set ?keys. currentCache ?s' k = Some False")
      case True
      then have "getFromCache ?s' ?r = (False, True)" using g by simp
      then show ?thesis by (rule exI)
    next
      case False
      have "\<forall>k\<in>set ?keys. currentCache ?s' k = Some True"
      proof
        fix k assume k: "k \<in> set ?keys"
        from all k have "currentCache ?s' k \<noteq> None" by (rule bspec)
        moreover from False k have "currentCache ?s' k \<noteq> Some False" by blast
        ultimately show "currentCache ?s' k = Some True"
          by (cases "currentCache ?s' k") simp_all
      qed
      with False have "getFromCache ?s' ?r = (True, True)" using g by simp
      then show ?thesis by (rule exI)
    qed
    then obtain d where "getFromCache ?s' ?r = (d, True)" ..
    from Check_hit [OF w' this, of net'] show ?thesis
      by (auto simp: response_def)
  qed
  have same: "fst (Check cfg net' ?s' req) =
             Inr \<lparr>Allow = ?v, Status = ''success'',
                  Message = (if ?v then ''Cache Hit'' else ''Cache Hit: Blocked''),
                  Error = '''', MissingFields = []\<rparr>"
    if eq: "Key ` set results = set ?keys"
      and con: "\<forall>i\<in>set results. \<forall>j\<in>set results. Key i = Key j \<longrightarrow> ItemAllow i = ItemAllow j"
  proof -
    have val: "currentCache ?s' (Key i) = Some (ItemAllow i)" if "i \<in> set results" for i
      using results_consistent [OF con that] by (simp add: cache map_add_def)
    have "getFromCache ?s' ?r = (?v, True)"
    proof (cases ?v)
      case True
      have "\<forall>k\<in>set ?keys. currentCache ?s' k = Some True"
      proof
        fix k assume "k \<in> set ?keys"
        with eq obtain i where "i \<in> set results" "k = Key i" by auto
        with val True show "currentCache ?s' k = Some True" by simp
      qed
      then show ?thesis using g True by simp
    next
      case False
      then obtain i where i: "i \<in> set results" "\<not> ItemAllow i" by auto
      with eq have "Key i \<in> set ?keys" by auto
      moreover have "currentCache ?s' (Key i) = Some False" using val i by simp
      ultimately have "\<exists>k\<in>set ?keys. currentCache ?s' k = Some False" by blast
      then show ?thesis using g False by simp
    qed
    from Check_hit [OF w' this, of net'] show ?thesis
      by (simp add: response_def)
  qed
  have hit': "set ?keys \<subseteq> Key ` set results \<longrightarrow>
           snd (snd (Check cfg net' ?s' req)) = []
           \<and> (\<exists>d. fst (Check cfg net' ?s' req) =
                 Inr \<lparr>Allow = d, Status = ''success'',
                      Message = (if d then ''Cache Hit'' else ''Cache Hit: Blocked''),
                      Error = '''', MissingFields = []\<rparr>)"
    by (rule impI) (rule hit)
  have same': "Key ` set results = set ?keys \<and>
         (\<forall>i\<in>set results. \<forall>j\<in>set results. Key i = Key j \<longrightarrow> ItemAllow i = ItemAllow j) \<longrightarrow>
           fst (Check cfg net' ?s' req) =
             Inr \<lparr>Allow = ?v, Status = ''success'',
                  Message = (if ?v then ''Cache Hit'' else ''Cache Hit: Blocked''),
                  Error = '''', MissingFields = []\<rparr>"
    by (intro impI, elim conjE, rule same)
  show ?thesis
    by (intro conjI) (fact calls cache known other resp hit' same')+
qed

theorem Check_live_check_witness:
  "\<not> warmUp window2
   \<and> \<not> snd (getFromCache window2 (reqFor test_cfg (req_ip ''9.9.9.9'')))
   \<and> callUpstreamBatch test_cfg upstream_ok (requestKeys (reqFor test_cfg (req_ip ''9.9.9.9''))) =
       Inr [item ''9.9.9.9'' True]
   \<and> snd (snd (Check test_cfg upstream_ok window2 (req_ip ''9.9.9.9''))) = [[''9.9.9.9'']]
   \<and> fst (Check test_cfg upstream_ok window2 (req_ip ''9.9.9.9'')) =
       Inr \<lparr>Allow = True, Status = ''success'', Message = ''Allowed (Live Check)'',
            Error = '''', MissingFields = []\<rparr>
   \<and> currentCache (fst (snd (Check test_cfg upstream_ok window2 (req_ip ''9.9.9.9'')))) ''9.9.9.9'' =
       Some True
   \<and> snd (snd (Check test_cfg upstream_down
         (fst (snd (Check test_cfg upstream_ok window2 (req_ip ''9.9.9.9'')))) (req_ip ''9.9.9.9''))) = []
   \<and> fst (Check test_cfg upstream_down
         (fst (snd (Check test_cfg upstream_ok window2 (req_ip ''9.9.9.9'')))) (req_ip ''9.9.9.9'')) =
       Inr \<lparr>Allow = True, Status = ''success'', Message = ''Cache Hit'',
            Error = '''', MissingFields = []\<rparr>"
proof -
  have w: "\<not> warmUp window2" by (simp add: window2_fields)
  have m: "\<not> snd (getFromCache window2 (reqFor test_cfg (req_ip ''9.9.9.9'')))"
    by (simp add: reqFor_req_ip getFromCache_rules requestKeys_req_ip window2_fields)
  have k: "requestKeys (reqFor test_cfg (req_ip ''9.9.9.9'')) \<noteq> []"
    by (simp add: reqFor_req_ip requestKeys_req_ip)
  have u: "callUpstreamBatch test_cfg upstream_ok (requestKeys (reqFor test_cfg (req_ip ''9.9.9.9''))) =
       Inr [item ''9.9.9.9'' True]"
    by (simp add: reqFor_req_ip requestKeys_req_ip callUpstreamBatch_def batch_request_def
        upstream_ok_def)
  show ?thesis
    using w m u Check_live_check [OF w m k u, of upstream_down]
    by (simp add: reqFor_req_ip requestKeys_req_ip item_def)
qed

text \<open>
  The sentence of C2 about the repeated \<open>Check\<close>, as it is written, fails: here the
  upstream answers for the requested key and adds a denied key of its own. The live
  check is blocked, and the same \<open>Check\<close> again is a cache hit that allows.
\<close>

theorem Check_repeat_counterexample:
  "\<not> warmUp window2
   \<and> callUpstreamBatch test_cfg upstream_extra (requestKeys (reqFor test_cfg (req_ip ''9.9.9.9''))) =
       Inr [item ''9.9.9.9'' True, item ''6.6.6.6'' False]
   \<and> fst (Check test_cfg upstream_extra window2 (req_ip ''9.9.9.9'')) =
       Inr \<lparr>Allow = False, Status = ''success'', Message = ''Blocked (Live Check)'',
            Error = '''', MissingFields = []\<rparr>
   \<and> fst (Check test_cfg upstream_extra
         (fst (snd (Check test_cfg upstream_extra window2 (req_ip ''9.9.9.9'')))) (req_ip ''9.9.9.9'')) =
       Inr \<lparr>Allow = True, Status = ''success'', Message = ''Cache Hit'',
            Error = '''', MissingFields = []\<rparr>"
proof -
  let ?req = "req_ip ''9.9.9.9''"
  have w: "\<not> warmUp window2" by (simp add: window2_fields)
  have m: "\<not> snd (getFromCache window2 (reqFor test_cfg ?req))"
    by (simp add: reqFor_req_ip getFromCache_rules requestKeys_req_ip window2_fields)
  have u: "callUpstreamBatch test_cfg upstream_extra (requestKeys (reqFor test_cfg ?req)) =
       Inr [item ''9.9.9.9'' True, item ''6.6.6.6'' False]"
    by (simp add: reqFor_req_ip requestKeys_req_ip callUpstreamBatch_def batch_request_def
        upstream_extra_def)
  note c = Check_miss [OF w m, of upstream_extra]
  have first: "fst (Check test_cfg upstream_extra window2 ?req) =
       Inr \<lparr>Allow = False, Status = ''success'', Message = ''Blocked (Live Check)'',
            Error = '''', MissingFields = []\<rparr>"
    using u by (simp add: c Let_def reqFor_req_ip requestKeys_req_ip response_def item_def)
  let ?s' = "fst (snd (Check test_cfg upstream_extra window2 ?req))"
  have cache: "currentCache ?s' ''9.9.9.9'' = Some True"
    using u by (simp add: c Let_def reqFor_req_ip requestKeys_req_ip item_def window2_fields)
  have w': "\<not> warmUp ?s'" using w by (simp add: Check_warmUp)
  have "getFromCache ?s' (reqFor test_cfg ?req) = (True, True)"
    by (simp add: reqFor_req_ip getFromCache_rules requestKeys_req_ip cache)
  from Check_hit [OF w' this, of upstream_extra]
  have second: "fst (Check test_cfg upstream_extra ?s' ?req) =
       Inr \<lparr>Allow = True, Status = ''success'', Message = ''Cache Hit'',
            Error = '''', MissingFields = []\<rparr>"
    by (simp add: response_def)
  show ?thesis using w u first second by simp
qed




lemma buildCache_eq:
  "buildCache results newCache =
     newCache ++ map_of (rev (map (\<lambda>i. (Key i, ItemAllow i)) results))"
proof (induction results arbitrary: newCache)
  case Nil
  then show ?case by simp
next
  case (Cons i results)
  have "buildCache (i # results) newCache = buildCache results (newCache(Key i \<mapsto> ItemAllow i))"
    by simp
  also have "\<dots> = newCache(Key i \<mapsto> ItemAllow i) ++
                       map_of (rev (map (\<lambda>i. (Key i, ItemAllow i)) results))"
    by (rule Cons.IH)
  also have "\<dots> = newCache ++ map_of (rev (map (\<lambda>i. (Key i, ItemAllow i)) (i # results)))"
    by (rule ext) (simp add: map_add_def split: option.splits)
  finally show ?case .
qed

lemma trackKeys_batchedKeys:
  "batchedKeys (trackKeys s req) =
     (let b1 = (if IPAddress req \<noteq> [] then track (IPAddress req) (batchedKeys s) else batchedKeys s);
          b2 = (if Email req \<noteq> [] then track (Email req) b1 else b1)
      in if UserAgent req \<noteq> [] then track (CompressUserAgent (UserAgent req)) b2 else b2)"
  by (simp add: trackKeys_def Let_def)

lemma Check_state_batchedKeys:
  "batchedKeys (fst (snd (Check cfg net s req))) =
     batchedKeys (trackKeys (s\<lparr>totalReqs := totalReqs s + 1\<rparr>) (reqFor cfg req))"
  by (simp add: Check_def Let_def split: prod.splits sum.splits)

lemma Check_batchedKeys:
  "batchedKeys (fst (snd (Check cfg net s req))) =
     batchedKeys (trackKeys s (reqFor cfg req))"
  by (simp add: Check_state_batchedKeys trackKeys_batchedKeys)

text \<open>
  Claim C5. The first half of a prefetch returns the tracked keys as the batch and leaves
  the tracking set empty, touching neither cache; it is one step, and the batch call
  comes after it. With nothing tracked, the prefetch makes no upstream call. Otherwise
  it makes one call, with the drained keys. A failed batch call leaves the service, and
  so \<open>pendingCache\<close>, as it was; a successful one makes the returned pairs the
  pending cache. Keys that a \<open>Check\<close> tracks after the drain and before the batch call
  returns are, and are the only ones, in the tracking set afterwards.
\<close>

theorem prefetch_drains:
  "fst (prefetch_drain s) = batchedKeys s
   \<and> batchedKeys (snd (prefetch_drain s)) = []
   \<and> pendingCache (snd (prefetch_drain s)) = pendingCache s
   \<and> currentCache (snd (prefetch_drain s)) = currentCache s
   \<and> (batchedKeys s = [] \<longrightarrow>
        snd (prefetch cfg net s) = [] \<and> pendingCache (fst (prefetch cfg net s)) = pendingCache s)
   \<and> (batchedKeys s \<noteq> [] \<longrightarrow>
        snd (prefetch cfg net s) = [batchedKeys s]
        \<and> fst (prefetch cfg net s) =
            prefetch_fetch cfg net (batchedKeys s) (snd (prefetch_drain s)))
   \<and> (callUpstreamBatch cfg net keys = Inl err \<longrightarrow> prefetch_fetch cfg net keys s' = s')
   \<and> (callUpstreamBatch cfg net (batchedKeys s) = Inl err \<longrightarrow>
        pendingCache (fst (prefetch cfg net s)) = pendingCache s)
   \<and> (callUpstreamBatch cfg net keys = Inr results \<longrightarrow>
        pendingCache (prefetch_fetch cfg net keys s') =
          Some (map_of (rev (map (\<lambda>i. (Key i, ItemAllow i)) results))))
   \<and> set (batchedKeys (prefetch_fetch cfg net (fst (prefetch_drain s))
             (fst (snd (Check cfg net' (snd (prefetch_drain s)) req))))) =
       set (requestKeys (reqFor cfg req))"
proof -
  have a: "fst (prefetch_drain s) = batchedKeys s"
    and b: "batchedKeys (snd (prefetch_drain s)) = []"
    and c: "pendingCache (snd (prefetch_drain s)) = pendingCache s"
    and d: "currentCache (snd (prefetch_drain s)) = currentCache s"
    by (simp_all add: prefetch_drain_fields)
  have e: "batchedKeys s = [] \<longrightarrow>
        snd (prefetch cfg net s) = [] \<and> pendingCache (fst (prefetch cfg net s)) = pendingCache s"
    by (simp add: prefetch_eq prefetch_drain_fields)
  have f: "batchedKeys s \<noteq> [] \<longrightarrow>
        snd (prefetch cfg net s) = [batchedKeys s]
        \<and> fst (prefetch cfg net s) =
            prefetch_fetch cfg net (batchedKeys s) (snd (prefetch_drain s))"
    by (simp add: prefetch_eq)
  have g: "callUpstreamBatch cfg net keys = Inl err \<longrightarrow> prefetch_fetch cfg net keys s' = s'"
    by (simp add: prefetch_fetch_def)
  have h: "callUpstreamBatch cfg net (batchedKeys s) = Inl err \<longrightarrow>
        pendingCache (fst (prefetch cfg net s)) = pendingCache s"
    by (simp add: prefetch_eq prefetch_drain_fields prefetch_fetch_def)
  have i: "callUpstreamBatch cfg net keys = Inr results \<longrightarrow>
        pendingCache (prefetch_fetch cfg net keys s') =
          Some (map_of (rev (map (\<lambda>i. (Key i, ItemAllow i)) results)))"
    by (simp add: prefetch_fetch_def buildCache_eq)
  have j: "set (batchedKeys (prefetch_fetch cfg net (fst (prefetch_drain s))
             (fst (snd (Check cfg net' (snd (prefetch_drain s)) req))))) =
       set (requestKeys (reqFor cfg req))"
    by (simp add: prefetch_fetch_fields Check_batchedKeys set_trackKeys prefetch_drain_fields)
  show ?thesis
    by (intro conjI) (fact a b c d e f g h i j)+
qed

theorem prefetch_drains_witness:
  "batchedKeys window2 = []
   \<and> snd (prefetch test_cfg upstream_ok window2) = []
   \<and> batchedKeys (fst (snd (Check test_cfg upstream_ok window2 (req_ip ''5.6.7.8'')))) = [''5.6.7.8'']
   \<and> snd (prefetch test_cfg upstream_down
        (fst (snd (Check test_cfg upstream_ok window2 (req_ip ''5.6.7.8''))))) = [[''5.6.7.8'']]
   \<and> callUpstreamBatch test_cfg upstream_down [''5.6.7.8''] = Inl ErrTransport
   \<and> pendingCache (fst (prefetch test_cfg upstream_down
        (fst (snd (Check test_cfg upstream_ok window2 (req_ip ''5.6.7.8'')))))) = None
   \<and> set (batchedKeys (prefetch_fetch test_cfg upstream_ok
             (fst (prefetch_drain (fst (snd (Check test_cfg upstream_ok window2 (req_ip ''5.6.7.8''))))))
             (fst (snd (Check test_cfg upstream_ok
                (snd (prefetch_drain (fst (snd (Check test_cfg upstream_ok window2 (req_ip ''5.6.7.8''))))))
                (req_ip ''9.9.9.9'')))))) = {''9.9.9.9''}"
proof -
  let ?t = "fst (snd (Check test_cfg upstream_ok window2 (req_ip ''5.6.7.8'')))"
  have w: "batchedKeys window2 = []" by (simp add: window2_fields)
  have t: "batchedKeys ?t = [''5.6.7.8'']"
    by (simp add: Check_batchedKeys trackKeys_def reqFor_req_ip req_ip_fields window2_fields
        track_def Let_def)
  have p: "pendingCache ?t = None" by (simp add: Check_pendingCache window2_fields)
  have d: "callUpstreamBatch test_cfg upstream_down [''5.6.7.8''] = Inl ErrTransport"
    by (simp add: callUpstreamBatch_def upstream_down_def)
  note A = prefetch_drains [of window2 test_cfg upstream_ok "[''5.6.7.8'']" ErrTransport window2
        "[item ''5.6.7.8'' True]" upstream_ok "req_ip ''9.9.9.9''"]
  note B = prefetch_drains [of ?t test_cfg upstream_down "[''5.6.7.8'']" ErrTransport window2
        "[item ''5.6.7.8'' True]" upstream_ok "req_ip ''9.9.9.9''"]
  note C = prefetch_drains [of ?t test_cfg upstream_ok "[''5.6.7.8'']" ErrTransport window2
        "[item ''5.6.7.8'' True]" upstream_ok "req_ip ''9.9.9.9''"]
  from A have "batchedKeys window2 = [] \<longrightarrow>
        snd (prefetch test_cfg upstream_ok window2) = [] \<and>
        pendingCache (fst (prefetch test_cfg upstream_ok window2)) = pendingCache window2"
    by (elim conjE)
  with w have 1: "snd (prefetch test_cfg upstream_ok window2) = []" by simp
  from B have "batchedKeys ?t \<noteq> [] \<longrightarrow>
        snd (prefetch test_cfg upstream_down ?t) = [batchedKeys ?t]
        \<and> fst (prefetch test_cfg upstream_down ?t) =
            prefetch_fetch test_cfg upstream_down (batchedKeys ?t) (snd (prefetch_drain ?t))"
    by (elim conjE)
  then have 2: "snd (prefetch test_cfg upstream_down ?t) = [[''5.6.7.8'']]"
    by (simp add: t)
  from B have "callUpstreamBatch test_cfg upstream_down (batchedKeys ?t) = Inl ErrTransport \<longrightarrow>
        pendingCache (fst (prefetch test_cfg upstream_down ?t)) = pendingCache ?t"
    by (elim conjE)
  then have 3: "pendingCache (fst (prefetch test_cfg upstream_down ?t)) = None"
    by (simp add: t d p)
  from C have "set (batchedKeys (prefetch_fetch test_cfg upstream_ok (fst (prefetch_drain ?t))
             (fst (snd (Check test_cfg upstream_ok (snd (prefetch_drain ?t)) (req_ip ''9.9.9.9'')))))) =
       set (requestKeys (reqFor test_cfg (req_ip ''9.9.9.9'')))"
    by (elim conjE)
  then have 4: "set (batchedKeys (prefetch_fetch test_cfg upstream_ok (fst (prefetch_drain ?t))
             (fst (snd (Check test_cfg upstream_ok (snd (prefetch_drain ?t)) (req_ip ''9.9.9.9'')))))) =
       {''9.9.9.9''}"
    by (simp add: reqFor_req_ip requestKeys_req_ip)
  show ?thesis
    by (intro conjI) (fact w 1 t 2 d 3 4)+
qed

lemma big_SetBytes_append:
  "fold (\<lambda>b acc. 256 * acc + unat b) bs a = a * 256 ^ length bs + big_SetBytes bs"
proof (induction bs arbitrary: a)
  case Nil
  then show ?case by (simp add: big_SetBytes_def)
next
  case (Cons b bs)
  have "fold (\<lambda>b acc. 256 * acc + unat b) (b # bs) a =
          fold (\<lambda>b acc. 256 * acc + unat b) bs (256 * a + unat b)" by simp
  also have "\<dots> = (256 * a + unat b) * 256 ^ length bs + big_SetBytes bs" by (rule Cons.IH)
  finally have l: "fold (\<lambda>b acc. 256 * acc + unat b) (b # bs) a =
          (256 * a + unat b) * 256 ^ length bs + big_SetBytes bs" .
  have "big_SetBytes (b # bs) = fold (\<lambda>b acc. 256 * acc + unat b) bs (unat b)"
    by (simp add: big_SetBytes_def)
  also have "\<dots> = unat b * 256 ^ length bs + big_SetBytes bs" by (rule Cons.IH)
  finally have r: "big_SetBytes (b # bs) = unat b * 256 ^ length bs + big_SetBytes bs" .
  show ?case unfolding l r by (simp add: algebra_simps)
qed

lemma big_SetBytes_Cons:
  "big_SetBytes (b # bs) = unat b * 256 ^ length bs + big_SetBytes bs"
  using big_SetBytes_append [of "[b] @ bs" 0] big_SetBytes_append [of bs "unat b"]
  by (simp add: big_SetBytes_def)

lemma big_SetBytes_big_endian:
  "big_SetBytes bs = (\<Sum>i<length bs. unat (bs ! i) * 256 ^ (length bs - 1 - i))"
proof (induction bs)
  case Nil
  then show ?case by (simp add: big_SetBytes_def)
next
  case (Cons b bs)
  have "(\<Sum>i<length (b # bs). unat ((b # bs) ! i) * 256 ^ (length (b # bs) - 1 - i)) =
        unat b * 256 ^ length bs + (\<Sum>i<length bs. unat (bs ! i) * 256 ^ (length bs - 1 - i))"
    unfolding length_Cons sum.lessThan_Suc_shift by simp
  then show ?case by (simp only: big_SetBytes_Cons Cons.IH)
qed

lemma big_SetBytes_bound: "big_SetBytes bs < 256 ^ length bs"
proof (induction bs)
  case Nil
  then show ?case by (simp add: big_SetBytes_def)
next
  case (Cons b bs)
  have "unat b \<le> 255" using unsigned_less [of b, where ?'a = nat] by simp
  then have "unat b * 256 ^ length bs \<le> 255 * 256 ^ length bs" by (rule mult_le_mono1)
  with Cons.IH have "unat b * 256 ^ length bs + big_SetBytes bs < 256 * 256 ^ length bs"
    by linarith
  then show ?case by (simp add: big_SetBytes_Cons)
qed

text \<open>Reading a decimal numeral back.\<close>

lemma digit_char_value: "d < 10 \<Longrightarrow> of_char (digit_char d) = (48 :: nat) + d"
proof -
  assume "d < 10"
  then have "d = 0 \<or> d = 1 \<or> d = 2 \<or> d = 3 \<or> d = 4 \<or> d = 5 \<or> d = 6 \<or> d = 7 \<or> d = 8 \<or> d = 9"
    by presburger
  then show ?thesis by (elim disjE) (simp_all add: digit_char_def)
qed

end
